theory Spec2Isabelle
  imports Main
begin

text \<open>
  \<^verbatim>\<open>formToMap\<close> of \<^verbatim>\<open>src/index.ts\<close>: the form is walked in document order, the values of
  its controls are merged into a \<^verbatim>\<open>Map\<close> by name, between a prepend and an append seed,
  and an optional mutator transforms or deletes the entries. The DOM, the selector engine
  and the built-in \<^verbatim>\<open>Map\<close> are modelled by what the code reads from them.
\<close>

section \<open>Values\<close>

text \<open>
  \<^verbatim>\<open>JSONValue\<close> of the package json-types2: null, booleans, numbers, strings, arrays and
  plain objects. \<^verbatim>\<open>formToMap\<close> never computes with a number, so the payload of a number is
  kept as an integer. Values are compared and stored by their structure: \<^verbatim>\<open>push\<close> on the
  array of an entry is the entry holding the longer array, and \<^verbatim>\<open>!==\<close> is inequality of
  structure. An array object that a seed or a \<^verbatim>\<open>getValue\<close> hands out under two names, which
  a \<^verbatim>\<open>push\<close> under one name would also change under the other, is outside this model.
\<close>

datatype JSONValue =
    JNull
  | JBoolean bool
  | JNumber int
  | JString string
  | JArray "JSONValue list"
  | JObject "(string \<times> JSONValue) list"

text \<open>
  What a JavaScript expression of declared type \<^verbatim>\<open>JSONValue\<close> can hold at run time:
  \<^verbatim>\<open>undefined\<close> (a missing map entry, a callback that returns nothing) or a JSON value.
\<close>

datatype jsvalue = Undefined | Json JSONValue

text \<open>\<^verbatim>\<open>x == null\<close>: true for \<^verbatim>\<open>null\<close> and \<^verbatim>\<open>undefined\<close> only.\<close>

definition is_nullish :: "jsvalue \<Rightarrow> bool" where
  "is_nullish v = (v = Undefined \<or> v = Json JNull)"

section \<open>The built-in Map\<close>

text \<open>
  A \<^verbatim>\<open>Map\<close> as ECMAScript specifies it: a list of records, searched from the front.
  \<^verbatim>\<open>set\<close> overwrites the record of a key that is present and appends one otherwise;
  \<^verbatim>\<open>delete\<close> empties the record and leaves its slot in the list, so that an iteration
  in progress keeps its position. \<open>None\<close> is an emptied slot.
\<close>

type_synonym jsmap = "(string \<times> jsvalue) option list"

fun map_get :: "string \<Rightarrow> jsmap \<Rightarrow> jsvalue" where
  "map_get k [] = Undefined"
| "map_get k (None # d) = map_get k d"
| "map_get k (Some (k', v) # d) = (if k' = k then v else map_get k d)"

fun map_set :: "string \<Rightarrow> jsvalue \<Rightarrow> jsmap \<Rightarrow> jsmap" where
  "map_set k v [] = [Some (k, v)]"
| "map_set k v (None # d) = None # map_set k v d"
| "map_set k v (Some (k', v') # d) =
     (if k' = k then Some (k, v) # d else Some (k', v') # map_set k v d)"

fun map_delete :: "string \<Rightarrow> jsmap \<Rightarrow> jsmap" where
  "map_delete k [] = []"
| "map_delete k (None # d) = None # map_delete k d"
| "map_delete k (Some (k', v') # d) =
     (if k' = k then None # d else Some (k', v') # map_delete k d)"

text \<open>The entries an iteration of the finished map yields, in order.\<close>

fun map_entries :: "jsmap \<Rightarrow> (string \<times> jsvalue) list" where
  "map_entries [] = []"
| "map_entries (None # d) = map_entries d"
| "map_entries (Some e # d) = e # map_entries d"

definition map_keys :: "jsmap \<Rightarrow> string list" where
  "map_keys d = map fst (map_entries d)"

section \<open>The form and its controls\<close>

datatype tag = Input | Select | Textarea | OtherTag

text \<open>
  An element below the form, with the properties \<^verbatim>\<open>formToMap\<close> reads.
  \<open>nameAttr\<close> is the \<^verbatim>\<open>name\<close> content attribute (\<open>None\<close> when the element has none),
  \<open>enabled\<close> says whether the element matches \<^verbatim>\<open>:enabled\<close>, \<open>typeProp\<close> and \<open>valueProp\<close>
  are the \<^verbatim>\<open>type\<close> and \<^verbatim>\<open>value\<close> properties, \<open>selectedOptions\<close> the values of the selected
  options of a select, in order. \<open>getValue\<close> is \<open>Some r\<close> when the element has a property
  \<^verbatim>\<open>getValue\<close> that is a function, \<open>r\<close> being what a call without arguments returns.
  The call and the mutator are taken to return: an exception of theirs is not caught by
  \<^verbatim>\<open>formToMap\<close>, which then returns nothing.
\<close>

record element =
  tagName :: tag
  nameAttr :: "string option"
  enabled :: bool
  typeProp :: string
  valueProp :: string
  checked :: bool
  multiple :: bool
  selectedOptions :: "string list"
  getValue :: "jsvalue option"

text \<open>The \<^verbatim>\<open>name\<close> property reflects the content attribute: the empty string when absent.\<close>

definition name_of :: "element \<Rightarrow> string" where
  "name_of child = (case nameAttr child of None \<Rightarrow> [] | Some n \<Rightarrow> n)"

text \<open>
  The first argument of \<^verbatim>\<open>formToMap\<close> as JavaScript can pass it: \<^verbatim>\<open>null\<close>,
  \<^verbatim>\<open>undefined\<close>, any value that is not an \<^verbatim>\<open>HTMLFormElement\<close>, or a form with its
  descendant elements in document order.
\<close>

datatype form_argument =
    ArgNull
  | ArgUndefined
  | ArgNotAForm
  | HTMLFormElement "element list"

text \<open>
  \<^verbatim>\<open>IFormAppend = JSONValidMap | JSONValidObject\<close>: a Map, given by its entries in
  iteration order, or a plain object, given by what \<^verbatim>\<open>Object.entries\<close> returns for it.
\<close>

datatype IFormAppend =
    SeedMap "(string \<times> JSONValue) list"
  | SeedObject "(string \<times> JSONValue) list"

type_synonym IFormMapMutatorFunction = "string \<Rightarrow> jsvalue \<Rightarrow> jsvalue"

record IFormToSerializableOptions =
  mutator :: "IFormMapMutatorFunction option"
  append :: "IFormAppend option"
  prepend :: "IFormAppend option"

datatype error = InvalidArgument

section \<open>getChildValue\<close>

text \<open>
  \<^verbatim>\<open>String.prototype.toLowerCase\<close> on the ASCII letters; the \<^verbatim>\<open>type\<close> of a control is an
  ASCII keyword.
\<close>

definition lower_char :: "char \<Rightarrow> char" where
  "lower_char c =
     (case map_of (zip ''ABCDEFGHIJKLMNOPQRSTUVWXYZ'' ''abcdefghijklmnopqrstuvwxyz'') c of
        None \<Rightarrow> c
      | Some l \<Rightarrow> l)"

definition toLowerCase :: "string \<Rightarrow> string" where
  "toLowerCase s = map lower_char s"

definition isInputCheckable :: "element \<Rightarrow> bool" where
  "isInputCheckable child =
     (tagName child = Input \<and>
      toLowerCase (typeProp child) \<in> set [''checkbox'', ''radio''])"

definition getChildValue :: "element \<Rightarrow> jsvalue" where
  "getChildValue child =
     (case getValue child of
        Some r \<Rightarrow> r
      | None \<Rightarrow>
          (let childValue =
                 (if tagName child = Select \<and> multiple child
                  then JArray (map JString (selectedOptions child))
                  else JString (valueProp child))
           in if isInputCheckable child
              then (if checked child then Json childValue else Json JNull)
              else Json childValue))"

section \<open>formToMap\<close>

text \<open>Both branches of the seed handling set every entry of the seed, in its order.\<close>

fun set_all :: "(string \<times> JSONValue) list \<Rightarrow> jsmap \<Rightarrow> jsmap" where
  "set_all [] data = data"
| "set_all ((key, v) # rest) data = set_all rest (map_set key (Json v) data)"

definition apply_seed :: "IFormAppend option \<Rightarrow> jsmap \<Rightarrow> jsmap" where
  "apply_seed seed data =
     (case seed of
        None \<Rightarrow> data
      | Some (SeedMap entries) \<Rightarrow> set_all entries data
      | Some (SeedObject entries) \<Rightarrow> set_all entries data)"

text \<open>\<^verbatim>\<open>querySelectorAll(":is(input, select, textarea)[name]:enabled")\<close>.\<close>

definition selector_matches :: "element \<Rightarrow> bool" where
  "selector_matches e =
     (tagName e \<in> set [Input, Select, Textarea] \<and> nameAttr e \<noteq> None \<and> enabled e)"

definition querySelectorAll :: "element list \<Rightarrow> element list" where
  "querySelectorAll descendants = filter selector_matches descendants"

definition skipped_type :: "element \<Rightarrow> bool" where
  "skipped_type child =
     (toLowerCase (typeProp child) \<in> set [''submit'', ''button'', ''reset'', ''file''])"

text \<open>
  What the loop stores when both the entry and the new value are neither \<^verbatim>\<open>null\<close> nor
  \<^verbatim>\<open>undefined\<close>: \<^verbatim>\<open>push\<close> onto an entry that is an array, a new array otherwise.
\<close>

definition merged_value :: "JSONValue \<Rightarrow> JSONValue \<Rightarrow> JSONValue" where
  "merged_value previousValue childValue =
     (case previousValue of
        JArray ps \<Rightarrow>
          (case childValue of
             JArray cs \<Rightarrow> JArray (ps @ cs)
           | _ \<Rightarrow> JArray (ps @ [childValue]))
      | _ \<Rightarrow>
          (case childValue of
             JArray cs \<Rightarrow> JArray (previousValue # cs)
           | _ \<Rightarrow> JArray [previousValue, childValue]))"

text \<open>
  The loop body from \<^verbatim>\<open>data.get(childName)\<close> on. After the two tests against \<^verbatim>\<open>null\<close>
  neither value is \<^verbatim>\<open>undefined\<close>, so the \<open>Undefined\<close> cases of the last branch are never
  reached.
\<close>

definition merge_pair :: "jsmap \<Rightarrow> string \<Rightarrow> jsvalue \<Rightarrow> jsmap" where
  "merge_pair data childName childValue =
     (let previousValue = map_get childName data
      in if is_nullish previousValue then map_set childName childValue data
         else if is_nullish childValue then data
         else (case previousValue of
                 Undefined \<Rightarrow> data
               | Json p \<Rightarrow>
                   (case childValue of
                      Undefined \<Rightarrow> data
                    | Json c \<Rightarrow> map_set childName (Json (merged_value p c)) data)))"

text \<open>
  One turn of the loop over \<^verbatim>\<open>children\<close>. An element of the node list is never falsy,
  so the first \<^verbatim>\<open>continue\<close> of the loop is never taken.
\<close>

definition walk_step :: "jsmap \<Rightarrow> element \<Rightarrow> jsmap" where
  "walk_step data child =
     (if skipped_type child then data
      else merge_pair data (name_of child) (getChildValue child))"

fun walk :: "jsmap \<Rightarrow> element list \<Rightarrow> jsmap" where
  "walk data [] = data"
| "walk data (child # children) = walk (walk_step data child) children"

text \<open>The callback of the last \<^verbatim>\<open>data.forEach\<close>.\<close>

definition mutate_entry :: "IFormMapMutatorFunction \<Rightarrow> string \<Rightarrow> jsvalue \<Rightarrow> jsmap \<Rightarrow> jsmap" where
  "mutate_entry mut key v data =
     (let newValue = mut key v
      in if newValue = Undefined then map_delete key data
         else if newValue \<noteq> v then map_set key newValue data
         else data)"

lemma length_map_set_present:
  "i < length d \<Longrightarrow> d ! i = Some (k, v) \<Longrightarrow> length (map_set k nv d) = length d"
proof (induction k nv d arbitrary: i rule: map_set.induct)
  case (1 k v)
  then show ?case by simp
next
  case (2 k v d)
  then show ?case by (cases i) auto
next
  case (3 k v k' v' d)
  then show ?case by (cases i) auto
qed

lemma length_map_delete: "length (map_delete k d) = length d"
  by (induction k d rule: map_delete.induct) auto

lemma length_mutate_entry:
  "i < length d \<Longrightarrow> d ! i = Some (k, v) \<Longrightarrow> length (mutate_entry mut k v d) = length d"
  by (simp add: mutate_entry_def Let_def length_map_set_present length_map_delete)

text \<open>
  \<^verbatim>\<open>Map.prototype.forEach\<close> with that callback: the records are visited by index, the
  number of records is read again after every call, and an emptied record is passed over.
  The second component lists the calls of the mutator made so far.
\<close>

function forEach_mutate ::
  "IFormMapMutatorFunction \<Rightarrow> nat \<Rightarrow> jsmap \<times> (string \<times> jsvalue) list
     \<Rightarrow> jsmap \<times> (string \<times> jsvalue) list" where
  "forEach_mutate mut i (data, calls) =
     (if i < length data
      then (case data ! i of
              None \<Rightarrow> forEach_mutate mut (Suc i) (data, calls)
            | Some (key, v) \<Rightarrow>
                forEach_mutate mut (Suc i) (mutate_entry mut key v data, calls @ [(key, v)]))
      else (data, calls))"
  by pat_completeness auto
termination
  by (relation "measure (\<lambda>(mut, i, data, calls). length data - i)")
     (auto simp: length_mutate_entry)

declare forEach_mutate.simps [simp del]

text \<open>The map as it stands after the append step, before the mutator runs.\<close>

definition before_mutation :: "element list \<Rightarrow> IFormToSerializableOptions \<Rightarrow> jsmap" where
  "before_mutation descendants opts =
     apply_seed (append opts)
       (walk (apply_seed (prepend opts) []) (querySelectorAll descendants))"

definition formToMap :: "form_argument \<Rightarrow> IFormToSerializableOptions \<Rightarrow> error + jsmap" where
  "formToMap formElement opts =
     (case formElement of
        HTMLFormElement descendants \<Rightarrow>
          (let data = before_mutation descendants opts
           in case mutator opts of
                None \<Rightarrow> Inr data
              | Some mut \<Rightarrow> Inr (fst (forEach_mutate mut 0 (data, []))))
      | _ \<Rightarrow> Inl InvalidArgument)"


section \<open>Notions used in the statements\<close>

text \<open>
  What one turn of the loop makes of the entry of a name, from the value the entry holds
  (\<open>Undefined\<close> when there is none) and the value of the control.
\<close>

definition merge_entry :: "jsvalue \<Rightarrow> jsvalue \<Rightarrow> jsvalue" where
  "merge_entry previousValue childValue =
     (if is_nullish previousValue then childValue
      else if is_nullish childValue then previousValue
      else (case previousValue of
              Undefined \<Rightarrow> previousValue
            | Json p \<Rightarrow>
                (case childValue of
                   Undefined \<Rightarrow> previousValue
                 | Json c \<Rightarrow> Json (merged_value p c))))"

text \<open>The keys of a seed.\<close>

definition seed_keys :: "IFormAppend option \<Rightarrow> string set" where
  "seed_keys seed =
     (case seed of
        None \<Rightarrow> {}
      | Some (SeedMap entries) \<Rightarrow> fst ` set entries
      | Some (SeedObject entries) \<Rightarrow> fst ` set entries)"

text \<open>A value the merge treats as a single element: neither \<^verbatim>\<open>null\<close> nor an array.\<close>

definition is_scalar :: "JSONValue \<Rightarrow> bool" where
  "is_scalar j = (case j of JNull \<Rightarrow> False | JArray xs \<Rightarrow> False | _ \<Rightarrow> True)"

text \<open>
  What the mutator pass leaves of a record of the map: nothing when the mutator returns
  \<^verbatim>\<open>undefined\<close>, the key with the returned value otherwise.
\<close>

definition mutated_slot ::
  "IFormMapMutatorFunction \<Rightarrow> (string \<times> jsvalue) option \<Rightarrow> (string \<times> jsvalue) option" where
  "mutated_slot mut slot =
     (case slot of
        None \<Rightarrow> None
      | Some (key, v) \<Rightarrow> (case mut key v of Undefined \<Rightarrow> None | Json nv \<Rightarrow> Some (key, Json nv)))"

text \<open>The children for which the loop reaches the merge, in document order.\<close>

definition walked :: "element list \<Rightarrow> element list" where
  "walked descendants = filter (\<lambda>c. \<not> skipped_type c) (querySelectorAll descendants)"

text \<open>The default \<^verbatim>\<open>{}\<close> of the second parameter.\<close>

definition default_options :: IFormToSerializableOptions where
  "default_options = \<lparr>mutator = None, append = None, prepend = None\<rparr>"

definition mutated_entry ::
  "IFormMapMutatorFunction \<Rightarrow> string \<times> jsvalue \<Rightarrow> (string \<times> jsvalue) option" where
  "mutated_entry mut e = mutated_slot mut (Some e)"

text \<open>No entry holds \<^verbatim>\<open>undefined\<close>.\<close>

definition defined_values :: "jsmap \<Rightarrow> bool" where
  "defined_values d = (Undefined \<notin> snd ` set (map_entries d))"

text \<open>A checkbox or radio button that is not checked and has no \<^verbatim>\<open>getValue\<close> of its own.\<close>

definition unchecked_checkable :: "element \<Rightarrow> bool" where
  "unchecked_checkable c = (isInputCheckable c \<and> \<not> checked c \<and> getValue c = None)"

text \<open>Two entry values behave alike in the merge when they are equal or both nullish.\<close>

definition alike :: "jsvalue \<Rightarrow> jsvalue \<Rightarrow> bool" where
  "alike a b = (a = b \<or> (is_nullish a \<and> is_nullish b))"

text \<open>Controls and options used as examples.\<close>

definition text_input :: "string \<Rightarrow> string \<Rightarrow> element" where
  "text_input n v =
     \<lparr>tagName = Input, nameAttr = Some n, enabled = True, typeProp = ''text'', valueProp = v,
      checked = False, multiple = False, selectedOptions = [], getValue = None\<rparr>"

definition checkbox :: "string \<Rightarrow> string \<Rightarrow> bool \<Rightarrow> element" where
  "checkbox n v c =
     \<lparr>tagName = Input, nameAttr = Some n, enabled = True, typeProp = ''checkbox'', valueProp = v,
      checked = c, multiple = False, selectedOptions = [], getValue = None\<rparr>"

definition select_multiple :: "string \<Rightarrow> string list \<Rightarrow> element" where
  "select_multiple n sel =
     \<lparr>tagName = Select, nameAttr = Some n, enabled = True, typeProp = ''select-multiple'',
      valueProp = (case sel of [] \<Rightarrow> [] | s # _ \<Rightarrow> s),
      checked = False, multiple = True, selectedOptions = sel, getValue = None\<rparr>"

definition example_mutator :: IFormMapMutatorFunction where
  "example_mutator key v =
     (if key = ''a'' then Undefined
      else if key = ''b'' then Json JNull
      else Json (JString ''X''))"

definition only_mutator :: "IFormMapMutatorFunction \<Rightarrow> IFormToSerializableOptions" where
  "only_mutator mut = \<lparr>mutator = Some mut, append = None, prepend = None\<rparr>"

section \<open>The map operations\<close>

lemma map_get_map_set:
  "map_get k (map_set k' v d) = (if k = k' then v else map_get k d)"
  by (induction k' v d rule: map_set.induct) auto

lemma map_keys_map_set:
  "map_keys (map_set k v d) = (if k \<in> set (map_keys d) then map_keys d else map_keys d @ [k])"
  by (induction k v d rule: map_set.induct) (auto simp: map_keys_def)

lemma map_get_absent: "k \<notin> set (map_keys d) \<Longrightarrow> map_get k d = Undefined"
  by (induction k d rule: map_get.induct) (auto simp: map_keys_def)

lemma distinct_map_keys_map_set:
  "distinct (map_keys d) \<Longrightarrow> distinct (map_keys (map_set k v d))"
  by (simp add: map_keys_map_set)

lemma values_map_set:
  "snd ` set (map_entries (map_set k v d)) \<subseteq> insert v (snd ` set (map_entries d))"
  by (induction k v d rule: map_set.induct) auto

lemma map_get_merge_pair:
  "map_get k (merge_pair d n v) = (if k = n then merge_entry (map_get n d) v else map_get k d)"
  by (auto simp: merge_pair_def merge_entry_def Let_def map_get_map_set split: jsvalue.splits)

lemma map_get_walk_step:
  "map_get k (walk_step d c) =
     (if \<not> skipped_type c \<and> name_of c = k then merge_entry (map_get k d) (getChildValue c)
      else map_get k d)"
  by (auto simp: walk_step_def map_get_merge_pair)

lemma map_get_walk:
  "map_get k (walk d cs) =
     foldl merge_entry (map_get k d)
       (map getChildValue (filter (\<lambda>c. \<not> skipped_type c \<and> name_of c = k) cs))"
  by (induction cs arbitrary: d) (auto simp: map_get_walk_step)

lemma map_get_set_all_absent:
  "k \<notin> fst ` set es \<Longrightarrow> map_get k (set_all es d) = map_get k d"
  by (induction es d rule: set_all.induct) (auto simp: map_get_map_set)

lemma map_get_apply_seed_absent:
  "k \<notin> seed_keys seed \<Longrightarrow> map_get k (apply_seed seed d) = map_get k d"
  by (auto simp: apply_seed_def seed_keys_def map_get_set_all_absent
      split: option.splits IFormAppend.splits)

lemma merged_value_array_scalar:
  "is_scalar j \<Longrightarrow> merged_value (JArray ps) j = JArray (ps @ [j])"
  by (cases j) (auto simp: merged_value_def is_scalar_def)

lemma merged_value_scalar_scalar:
  "is_scalar p \<Longrightarrow> is_scalar j \<Longrightarrow> merged_value p j = JArray [p, j]"
  by (cases p; cases j) (auto simp: merged_value_def is_scalar_def)

lemma is_scalar_not_nullish: "is_scalar j \<Longrightarrow> \<not> is_nullish (Json j)"
  by (auto simp: is_scalar_def is_nullish_def)

lemma foldl_merge_entry_array:
  "\<forall>j \<in> set js. is_scalar j \<Longrightarrow>
   foldl merge_entry (Json (JArray ps)) (map Json js) = Json (JArray (ps @ js))"
proof (induction js arbitrary: ps)
  case Nil
  then show ?case by simp
next
  case (Cons j js)
  have "merge_entry (Json (JArray ps)) (Json j) = Json (JArray (ps @ [j]))"
    using Cons.prems is_scalar_not_nullish [of j]
    by (simp add: merge_entry_def is_nullish_def merged_value_array_scalar)
  then show ?case using Cons by simp
qed

lemma foldl_merge_entry_scalars:
  assumes "is_nullish e" and "\<forall>j \<in> set js. is_scalar j"
  shows "foldl merge_entry e (map Json js) =
           (case js of [] \<Rightarrow> e | [j] \<Rightarrow> Json j | _ \<Rightarrow> Json (JArray js))"
proof (cases js)
  case Nil
  then show ?thesis by simp
next
  case (Cons j rest)
  note js = Cons
  have first: "merge_entry e (Json j) = Json j"
    using assms(1) by (simp add: merge_entry_def)
  show ?thesis
  proof (cases rest)
    case Nil
    then show ?thesis using js first by simp
  next
    case (Cons j' rest')
    have "merge_entry (Json j) (Json j') = Json (JArray [j, j'])"
      using assms(2) js Cons is_scalar_not_nullish [of j] is_scalar_not_nullish [of j']
      by (simp add: merge_entry_def merged_value_scalar_scalar)
    moreover have "\<forall>x \<in> set rest'. is_scalar x"
      using assms(2) js Cons by simp
    ultimately show ?thesis
      using js Cons first by (simp add: foldl_merge_entry_array)
  qed
qed

lemma nth_in_map_keys:
  "i < length d \<Longrightarrow> d ! i = Some (k, v) \<Longrightarrow> k \<in> set (map_keys d)"
proof (induction d arbitrary: i)
  case Nil
  then show ?case by simp
next
  case (Cons s d)
  show ?case
  proof (cases i)
    case 0
    then show ?thesis using Cons.prems by (simp add: map_keys_def)
  next
    case (Suc j)
    then have "k \<in> set (map_keys d)" using Cons by simp
    then show ?thesis by (cases s) (auto simp: map_keys_def)
  qed
qed

lemma map_set_at:
  "distinct (map_keys d) \<Longrightarrow> i < length d \<Longrightarrow> d ! i = Some (k, v) \<Longrightarrow>
   map_set k nv d = d[i := Some (k, nv)]"
proof (induction k nv d arbitrary: i rule: map_set.induct)
  case (1 k v)
  then show ?case by simp
next
  case (2 k nv d)
  then show ?case by (cases i) (auto simp: map_keys_def)
next
  case (3 k nv k' v' d)
  show ?case
  proof (cases i)
    case 0
    then show ?thesis using "3.prems" by simp
  next
    case (Suc j)
    then have "k \<in> set (map_keys d)" using "3.prems" nth_in_map_keys [of j d k v] by simp
    then have "k' \<noteq> k" using "3.prems"(1) by (auto simp: map_keys_def)
    then show ?thesis using 3 Suc by (simp add: map_keys_def)
  qed
qed

lemma map_delete_at:
  "distinct (map_keys d) \<Longrightarrow> i < length d \<Longrightarrow> d ! i = Some (k, v) \<Longrightarrow>
   map_delete k d = d[i := None]"
proof (induction k d arbitrary: i rule: map_delete.induct)
  case (1 k)
  then show ?case by simp
next
  case (2 k d)
  then show ?case by (cases i) (auto simp: map_keys_def)
next
  case (3 k k' v' d)
  show ?case
  proof (cases i)
    case 0
    then show ?thesis using "3.prems" by simp
  next
    case (Suc j)
    then have "k \<in> set (map_keys d)" using "3.prems" nth_in_map_keys [of j d k v] by simp
    then have "k' \<noteq> k" using "3.prems"(1) by (auto simp: map_keys_def)
    then show ?thesis using 3 Suc by (simp add: map_keys_def)
  qed
qed

lemma mutate_entry_at:
  assumes "distinct (map_keys d)" "i < length d" "d ! i = Some (k, v)"
  shows "mutate_entry mut k v d = d[i := mutated_slot mut (Some (k, v))]"
proof (cases "mut k v")
  case Undefined
  then show ?thesis
    using assms by (simp add: mutate_entry_def mutated_slot_def map_delete_at)
next
  case (Json nv)
  show ?thesis
  proof (cases "Json nv = v")
    case True
    have same: "mutate_entry mut k v d = d"
      using Json True by (auto simp: mutate_entry_def)
    have slot: "mutated_slot mut (Some (k, v)) = Some (k, v)"
      using Json True by (auto simp: mutated_slot_def)
    have "d[i := Some (k, v)] = d"
      using assms by (simp add: list_update_same_conv)
    then show ?thesis using same slot by simp
  next
    case False
    then show ?thesis
      using Json assms map_set_at [of d i k v "Json nv"]
      by (simp add: mutate_entry_def mutated_slot_def)
  qed
qed

lemma map_keys_update_same_key:
  "i < length d \<Longrightarrow> d ! i = Some (k, v) \<Longrightarrow> map_keys (d[i := Some (k, nv)]) = map_keys d"
proof (induction d arbitrary: i)
  case Nil
  then show ?case by simp
next
  case (Cons s d)
  then show ?case by (cases i; cases s) (auto simp: map_keys_def)
qed

lemma set_map_keys_update_None: "set (map_keys (d[i := None])) \<subseteq> set (map_keys d)"
proof (induction d arbitrary: i)
  case Nil
  then show ?case by simp
next
  case (Cons s d)
  show ?case
  proof (cases i)
    case 0
    then show ?thesis by (cases s) (auto simp: map_keys_def)
  next
    case (Suc j)
    then show ?thesis using Cons [of j] by (cases s) (auto simp: map_keys_def)
  qed
qed

lemma distinct_map_keys_update_None:
  "distinct (map_keys d) \<Longrightarrow> distinct (map_keys (d[i := None]))"
proof (induction d arbitrary: i)
  case Nil
  then show ?case by simp
next
  case (Cons s d)
  show ?case
  proof (cases i)
    case 0
    then show ?thesis using Cons.prems by (cases s) (auto simp: map_keys_def)
  next
    case (Suc j)
    have sub: "set (map_keys (d[j := None])) \<subseteq> set (map_keys d)"
      by (rule set_map_keys_update_None)
    show ?thesis
    proof (cases s)
      case None
      then show ?thesis using Cons Suc by (simp add: map_keys_def)
    next
      case (Some e)
      then have "fst e \<notin> set (map_keys d)" and "distinct (map_keys d)"
        using Cons.prems by (auto simp: map_keys_def)
      then have "fst e \<notin> set (map_keys (d[j := None]))" and "distinct (map_keys (d[j := None]))"
        using sub Cons.IH by auto
      then show ?thesis using Some Suc by (simp add: map_keys_def)
    qed
  qed
qed

lemma distinct_map_keys_mutated:
  assumes "distinct (map_keys d)" "i < length d" "d ! i = Some (k, v)"
  shows "distinct (map_keys (d[i := mutated_slot mut (Some (k, v))]))"
proof (cases "mut k v")
  case Undefined
  then show ?thesis using assms by (simp add: mutated_slot_def distinct_map_keys_update_None)
next
  case (Json nv)
  then show ?thesis using assms by (simp add: mutated_slot_def map_keys_update_same_key)
qed

lemma forEach_mutate_slots:
  "distinct (map_keys d) \<Longrightarrow> i \<le> length d \<Longrightarrow>
   forEach_mutate mut i (d, calls) =
     (take i d @ map (mutated_slot mut) (drop i d), calls @ map_entries (drop i d))"
proof (induction mut i "(d, calls)" arbitrary: d calls rule: forEach_mutate.induct)
  case (1 mut i d calls)
  show ?case
  proof (cases "i < length d")
    case False
    then show ?thesis using "1.prems" by (simp add: forEach_mutate.simps)
  next
    case True
    note lt = True
    have split_drop: "drop i d = d ! i # drop (Suc i) d"
      using lt by (simp add: Cons_nth_drop_Suc)
    show ?thesis
    proof (cases "d ! i")
      case None
      have "forEach_mutate mut i (d, calls) = forEach_mutate mut (Suc i) (d, calls)"
        using lt None by (subst forEach_mutate.simps) simp
      also have "\<dots> = (take (Suc i) d @ map (mutated_slot mut) (drop (Suc i) d),
                        calls @ map_entries (drop (Suc i) d))"
        using "1.hyps"(1) [OF lt None] "1.prems" lt by simp
      also have "\<dots> = (take i d @ map (mutated_slot mut) (drop i d),
                        calls @ map_entries (drop i d))"
        using lt None split_drop by (simp add: take_Suc_conv_app_nth mutated_slot_def)
      finally show ?thesis .
    next
      case (Some e)
      obtain k v where e: "e = (k, v)" by (cases e)
      let ?d' = "d[i := mutated_slot mut (Some (k, v))]"
      have step: "mutate_entry mut k v d = ?d'"
        using "1.prems"(1) lt Some e by (simp add: mutate_entry_at)
      have dist: "distinct (map_keys ?d')"
        using "1.prems"(1) lt Some e by (simp add: distinct_map_keys_mutated)
      have "forEach_mutate mut i (d, calls) =
              forEach_mutate mut (Suc i) (mutate_entry mut k v d, calls @ [(k, v)])"
        using lt Some e by (subst forEach_mutate.simps) simp
      also have "\<dots> = (take (Suc i) ?d' @ map (mutated_slot mut) (drop (Suc i) ?d'),
                        (calls @ [(k, v)]) @ map_entries (drop (Suc i) ?d'))"
        using "1.hyps"(2) [OF lt Some e [symmetric]] dist lt step
        by simp
      also have "\<dots> = (take i d @ map (mutated_slot mut) (drop i d),
                        calls @ map_entries (drop i d))"
        using lt Some e split_drop by (simp add: take_Suc_conv_app_nth)
      finally show ?thesis .
    qed
  qed
qed

lemma map_get_present: "map_get k d \<noteq> Undefined \<Longrightarrow> k \<in> set (map_keys d)"
  using map_get_absent by blast

lemma set_map_keys_map_set: "set (map_keys (map_set k v d)) = insert k (set (map_keys d))"
  by (auto simp: map_keys_map_set)

lemma set_map_keys_set_all: "set (map_keys (set_all es d)) = fst ` set es \<union> set (map_keys d)"
  by (induction es d rule: set_all.induct) (auto simp: set_map_keys_map_set)

lemma set_map_keys_apply_seed:
  "set (map_keys (apply_seed seed d)) = seed_keys seed \<union> set (map_keys d)"
  by (auto simp: apply_seed_def seed_keys_def set_map_keys_set_all
      split: option.splits IFormAppend.splits)

lemma set_map_keys_merge_pair: "set (map_keys (merge_pair d n v)) = insert n (set (map_keys d))"
proof (cases "is_nullish (map_get n d)")
  case True
  then show ?thesis by (simp add: merge_pair_def set_map_keys_map_set)
next
  case False
  then have "n \<in> set (map_keys d)"
    using map_get_present [of n d] by (auto simp: is_nullish_def)
  then show ?thesis
    using False
    by (auto simp: merge_pair_def Let_def set_map_keys_map_set split: jsvalue.splits)
qed

lemma set_map_keys_walk:
  "set (map_keys (walk d cs)) = set (map_keys d) \<union> name_of ` {c \<in> set cs. \<not> skipped_type c}"
  by (induction cs arbitrary: d) (auto simp: walk_step_def set_map_keys_merge_pair)

lemma distinct_set_all: "distinct (map_keys d) \<Longrightarrow> distinct (map_keys (set_all es d))"
  by (induction es d rule: set_all.induct) (auto simp: distinct_map_keys_map_set)

lemma distinct_apply_seed: "distinct (map_keys d) \<Longrightarrow> distinct (map_keys (apply_seed seed d))"
  by (auto simp: apply_seed_def distinct_set_all split: option.splits IFormAppend.splits)

lemma distinct_merge_pair: "distinct (map_keys d) \<Longrightarrow> distinct (map_keys (merge_pair d n v))"
  by (auto simp: merge_pair_def Let_def distinct_map_keys_map_set split: jsvalue.splits)

lemma distinct_walk: "distinct (map_keys d) \<Longrightarrow> distinct (map_keys (walk d cs))"
  by (induction cs arbitrary: d) (auto simp: walk_step_def distinct_merge_pair)

lemma distinct_before_mutation: "distinct (map_keys (before_mutation els opts))"
proof -
  have "distinct (map_keys [])" by (simp add: map_keys_def)
  then show ?thesis
    unfolding before_mutation_def by (intro distinct_apply_seed distinct_walk)
qed

lemma defined_values_map_set:
  "defined_values d \<Longrightarrow> v \<noteq> Undefined \<Longrightarrow> defined_values (map_set k v d)"
  using values_map_set [of k v d] by (auto simp: defined_values_def)

lemma defined_values_set_all: "defined_values d \<Longrightarrow> defined_values (set_all es d)"
  by (induction es d rule: set_all.induct) (auto simp: defined_values_map_set)

lemma defined_values_apply_seed: "defined_values d \<Longrightarrow> defined_values (apply_seed seed d)"
  by (auto simp: apply_seed_def defined_values_set_all split: option.splits IFormAppend.splits)

lemma defined_values_merge_pair:
  "defined_values d \<Longrightarrow> v \<noteq> Undefined \<Longrightarrow> defined_values (merge_pair d n v)"
  by (auto simp: merge_pair_def Let_def defined_values_map_set split: jsvalue.splits)

lemma getChildValue_defined: "getValue c \<noteq> Some Undefined \<Longrightarrow> getChildValue c \<noteq> Undefined"
  by (auto simp: getChildValue_def Let_def split: option.splits)

lemma defined_values_walk:
  "defined_values d \<Longrightarrow> \<forall>c \<in> set cs. getValue c \<noteq> Some Undefined \<Longrightarrow>
   defined_values (walk d cs)"
  by (induction cs arbitrary: d)
     (auto simp: walk_step_def defined_values_merge_pair getChildValue_defined)

lemma defined_values_before_mutation:
  "\<forall>c \<in> set els. getValue c \<noteq> Some Undefined \<Longrightarrow> defined_values (before_mutation els opts)"
proof -
  assume ok: "\<forall>c \<in> set els. getValue c \<noteq> Some Undefined"
  have "defined_values []" by (simp add: defined_values_def)
  then have "defined_values (apply_seed (prepend opts) [])"
    by (rule defined_values_apply_seed)
  moreover have "\<forall>c \<in> set (querySelectorAll els). getValue c \<noteq> Some Undefined"
    using ok by (simp add: querySelectorAll_def)
  ultimately have "defined_values (walk (apply_seed (prepend opts) []) (querySelectorAll els))"
    by (rule defined_values_walk)
  then show ?thesis
    unfolding before_mutation_def by (rule defined_values_apply_seed)
qed

lemma forEach_mutate_all:
  "distinct (map_keys d) \<Longrightarrow>
   forEach_mutate mut 0 (d, []) = (map (mutated_slot mut) d, map_entries d)"
  using forEach_mutate_slots [of d 0 mut "[]"] by simp

lemma map_entries_mutated:
  "map_entries (map (mutated_slot mut) d) = List.map_filter (mutated_entry mut) (map_entries d)"
proof (induction d)
  case Nil
  then show ?case by simp
next
  case (Cons s d)
  show ?case
  proof (cases s)
    case None
    then show ?thesis using Cons by (simp add: mutated_slot_def)
  next
    case (Some e)
    then show ?thesis
      using Cons
      by (cases "mutated_slot mut (Some e)") (simp_all add: mutated_entry_def)
  qed
qed

lemma mutated_slot_identity:
  "defined_values d \<Longrightarrow> map (mutated_slot (\<lambda>key v. v)) d = d"
proof (induction d)
  case Nil
  then show ?case by simp
next
  case (Cons s d)
  show ?case
  proof (cases s)
    case None
    then show ?thesis using Cons by (simp add: mutated_slot_def defined_values_def)
  next
    case (Some e)
    then show ?thesis
      using Cons by (cases e; cases "snd e") (auto simp: mutated_slot_def defined_values_def)
  qed
qed

lemma mutated_slot_delete: "map_entries (map (mutated_slot (\<lambda>key v. Undefined)) d) = []"
  by (induction d) (auto simp: mutated_slot_def split: option.splits)

section \<open>The entry of one name\<close>

lemma mutated_entry_unfold:
  "mutated_entry mut =
     (\<lambda>(key, v). case mut key v of Undefined \<Rightarrow> None | Json nv \<Rightarrow> Some (key, Json nv))"
  by (auto simp: fun_eq_iff mutated_entry_def mutated_slot_def)

lemma formToMap_with_mutator:
  "mutator opts = Some mut \<Longrightarrow>
   formToMap (HTMLFormElement els) opts =
     Inr (map (mutated_slot mut) (before_mutation els opts))"
  by (simp add: formToMap_def forEach_mutate_all distinct_before_mutation)

lemma formToMap_without_mutator:
  "mutator opts = None \<Longrightarrow>
   formToMap (HTMLFormElement els) opts = Inr (before_mutation els opts)"
  by (simp add: formToMap_def)

lemma keys_map_filter_mutated:
  "set (map fst (List.map_filter (mutated_entry mut) es)) \<subseteq> set (map fst es)"
proof (induction es)
  case Nil
  then show ?case by simp
next
  case (Cons e es)
  then show ?case
    by (cases e; cases "mut (fst e) (snd e)")
       (auto simp: mutated_entry_def mutated_slot_def)
qed

lemma values_map_filter_mutated:
  "Undefined \<notin> snd ` set (List.map_filter (mutated_entry mut) es)"
proof (induction es)
  case Nil
  then show ?case by simp
next
  case (Cons e es)
  then show ?case
    by (cases e; cases "mut (fst e) (snd e)")
       (auto simp: mutated_entry_def mutated_slot_def)
qed

lemma set_map_keys_before_mutation:
  "set (map_keys (before_mutation els opts)) =
     seed_keys (prepend opts) \<union> name_of ` set (walked els) \<union> seed_keys (append opts)"
proof -
  have "set (map_keys []) = {}" by (simp add: map_keys_def)
  then show ?thesis
    by (auto simp: before_mutation_def set_map_keys_apply_seed set_map_keys_walk walked_def)
qed

lemma entry_before_mutation:
  assumes "n \<notin> seed_keys (prepend opts)" and "n \<notin> seed_keys (append opts)"
  shows "map_get n (before_mutation els opts) =
           foldl merge_entry Undefined
             (map getChildValue (filter (\<lambda>c. name_of c = n) (walked els)))"
proof -
  have "map_get n (apply_seed (prepend opts) []) = Undefined"
    using assms(1) by (simp add: map_get_apply_seed_absent)
  then show ?thesis
    using assms(2)
    by (simp add: before_mutation_def map_get_apply_seed_absent map_get_walk walked_def)
qed

lemma unchecked_checkable_null: "unchecked_checkable c \<Longrightarrow> getChildValue c = Json JNull"
  by (simp add: unchecked_checkable_def getChildValue_def)

lemma foldl_merge_entry_nulls:
  "is_nullish e \<Longrightarrow> vs \<noteq> [] \<Longrightarrow> \<forall>v \<in> set vs. v = Json JNull \<Longrightarrow>
   foldl merge_entry e vs = Json JNull"
proof (induction vs arbitrary: e)
  case Nil
  then show ?case by simp
next
  case (Cons v vs)
  have v: "v = Json JNull" using Cons.prems by simp
  then have step: "merge_entry e v = Json JNull"
    using Cons.prems(1) by (simp add: merge_entry_def)
  show ?case
  proof (cases vs)
    case Nil
    then show ?thesis using step by simp
  next
    case (Cons w ws)
    then show ?thesis
      using Cons.IH [of "Json JNull"] Cons.prems step by (simp add: is_nullish_def)
  qed
qed

lemma merge_entry_nullish: "is_nullish a \<Longrightarrow> merge_entry a v = v"
  by (simp add: merge_entry_def)

lemma merge_entry_null: "\<not> is_nullish a \<Longrightarrow> is_nullish v \<Longrightarrow> merge_entry a v = a"
  by (simp add: merge_entry_def)

lemma merge_entry_values:
  "\<not> is_nullish (Json p) \<Longrightarrow> \<not> is_nullish (Json c) \<Longrightarrow>
   merge_entry (Json p) (Json c) = Json (merged_value p c)"
  by (simp add: merge_entry_def)

lemma alike_merge_entry: "alike a b \<Longrightarrow> alike (merge_entry a v) (merge_entry b v)"
proof (cases "a = b")
  case True
  then show ?thesis by (simp add: alike_def)
next
  case False
  assume "alike a b"
  then have "is_nullish a" and "is_nullish b" using False by (simp_all add: alike_def)
  then show ?thesis by (simp add: merge_entry_nullish alike_def)
qed

lemma alike_merge_entry_null:
  assumes "alike a b" and "is_nullish v"
  shows "alike (merge_entry a v) b"
proof (cases "is_nullish a")
  case True
  then have "is_nullish b" using assms(1) by (auto simp: alike_def)
  then show ?thesis using True assms(2) by (simp add: merge_entry_nullish alike_def)
next
  case False
  then have "a = b" using assms(1) by (simp add: alike_def)
  then show ?thesis using False assms(2) by (simp add: merge_entry_null alike_def)
qed

lemma alike_foldl:
  "alike a b \<Longrightarrow> \<forall>c \<in> set cs. \<not> P c \<longrightarrow> is_nullish (getChildValue c) \<Longrightarrow>
   alike (foldl merge_entry a (map getChildValue cs))
         (foldl merge_entry b (map getChildValue (filter P cs)))"
proof (induction cs arbitrary: a b)
  case Nil
  then show ?case by simp
next
  case (Cons c cs)
  show ?case
  proof (cases "P c")
    case True
    then show ?thesis
      using Cons.IH [of "merge_entry a (getChildValue c)" "merge_entry b (getChildValue c)"]
        Cons.prems alike_merge_entry [of a b "getChildValue c"]
      by simp
  next
    case False
    then have "is_nullish (getChildValue c)" using Cons.prems by simp
    then have "alike (merge_entry a (getChildValue c)) b"
      using Cons.prems(1) by (simp add: alike_merge_entry_null)
    then show ?thesis
      using Cons.IH [of "merge_entry a (getChildValue c)" b] Cons.prems False by simp
  qed
qed

lemma merged_value_not_null: "merged_value p c \<noteq> JNull"
  by (cases p; cases c) (simp_all add: merged_value_def)

lemma merge_entry_of_values:
  assumes "\<not> is_nullish a" and "\<not> is_nullish v"
  shows "\<not> is_nullish (merge_entry a v)"
proof -
  obtain p where a: "a = Json p" using assms(1) by (cases a) (simp_all add: is_nullish_def)
  obtain c where v: "v = Json c" using assms(2) by (cases v) (simp_all add: is_nullish_def)
  have "merge_entry a v = Json (merged_value p c)"
    using assms unfolding a v by (rule merge_entry_values)
  then show ?thesis by (simp add: is_nullish_def merged_value_not_null)
qed

lemma merge_entry_keeps_value: "\<not> is_nullish a \<Longrightarrow> \<not> is_nullish (merge_entry a v)"
  by (cases "is_nullish v") (simp_all add: merge_entry_null merge_entry_of_values)

lemma merge_entry_takes_value: "\<not> is_nullish v \<Longrightarrow> \<not> is_nullish (merge_entry a v)"
  by (cases "is_nullish a") (simp_all add: merge_entry_nullish merge_entry_of_values)

lemma foldl_merge_entry_keeps_value:
  "\<not> is_nullish a \<Longrightarrow> \<not> is_nullish (foldl merge_entry a vs)"
  by (induction vs arbitrary: a) (simp_all add: merge_entry_keeps_value)

lemma foldl_merge_entry_takes_value:
  "\<exists>v \<in> set vs. \<not> is_nullish v \<Longrightarrow> \<not> is_nullish (foldl merge_entry a vs)"
proof (induction vs arbitrary: a)
  case Nil
  then show ?case by simp
next
  case (Cons v vs)
  show ?case
  proof (cases "is_nullish v")
    case True
    then show ?thesis using Cons by simp
  next
    case False
    then have "\<not> is_nullish (merge_entry a v)" by (rule merge_entry_takes_value)
    then show ?thesis by (simp add: foldl_merge_entry_keeps_value)
  qed
qed

lemma map_get_set_all_cong:
  "map_get k d = map_get k d' \<Longrightarrow> map_get k (set_all es d) = map_get k (set_all es d')"
proof (induction es arbitrary: d d')
  case Nil
  then show ?case by simp
next
  case (Cons e es)
  obtain key v where e: "e = (key, v)" by (cases e)
  have "map_get k (map_set key (Json v) d) = map_get k (map_set key (Json v) d')"
    using Cons.prems by (simp add: map_get_map_set)
  then have "map_get k (set_all es (map_set key (Json v) d)) =
             map_get k (set_all es (map_set key (Json v) d'))"
    by (rule Cons.IH)
  then show ?case by (simp add: e)
qed

lemma map_get_apply_seed_cong:
  "map_get k d = map_get k d' \<Longrightarrow> map_get k (apply_seed seed d) = map_get k (apply_seed seed d')"
proof -
  assume same: "map_get k d = map_get k d'"
  show ?thesis
  proof (cases seed)
    case None
    then show ?thesis using same by (simp add: apply_seed_def)
  next
    case (Some s)
    then show ?thesis
      using map_get_set_all_cong [OF same] by (cases s) (simp_all add: apply_seed_def)
  qed
qed

lemma map_get_mutated:
  "distinct (map_keys d) \<Longrightarrow>
   map_get k (map (mutated_slot mut) d) =
     (if k \<in> set (map_keys d) then mut k (map_get k d) else Undefined)"
proof (induction d)
  case Nil
  then show ?case by (simp add: map_keys_def)
next
  case (Cons s d)
  show ?case
  proof (cases s)
    case None
    then show ?thesis using Cons by (simp add: map_keys_def mutated_slot_def)
  next
    case (Some e)
    obtain k' v' where e: "e = (k', v')" by (cases e)
    have tail: "distinct (map_keys d)" and fresh: "k' \<notin> set (map_keys d)"
      using Cons.prems Some e by (auto simp: map_keys_def)
    show ?thesis
    proof (cases "k' = k")
      case True
      have rest: "map_get k (map (mutated_slot mut) d) = Undefined"
        using Cons.IH [OF tail] fresh True by simp
      have slot: "mutated_slot mut (Some (k, v')) =
          (case mut k v' of Undefined \<Rightarrow> None | Json nv \<Rightarrow> Some (k, Json nv))"
        by (simp add: mutated_slot_def)
      show ?thesis
        using Some e True rest slot by (cases "mut k v'") (simp_all add: map_keys_def)
    next
      case False
      have slot: "mutated_slot mut (Some (k', v')) =
          (case mut k' v' of Undefined \<Rightarrow> None | Json nv \<Rightarrow> Some (k', Json nv))"
        by (simp add: mutated_slot_def)
      show ?thesis
        using Cons.IH [OF tail] Some e False slot
        by (cases "mut k' v'") (simp_all add: map_keys_def)
    qed
  qed
qed

lemma alike_value: "alike a b \<Longrightarrow> \<not> is_nullish b \<Longrightarrow> a = b"
  by (auto simp: alike_def)

lemma walked_filter: "walked (filter P els) = filter P (walked els)"
  unfolding walked_def querySelectorAll_def by (induction els) auto

lemma entry_without_unchecked:
  assumes "c \<in> set (walked els)" and "name_of c = n" and "\<not> is_nullish (getChildValue c)"
  shows "map_get n (before_mutation els opts) =
           map_get n (before_mutation
             (filter (\<lambda>c. \<not> (unchecked_checkable c \<and> name_of c = n)) els) opts)"
    and "n \<notin> seed_keys (append opts) \<Longrightarrow> \<not> is_nullish (map_get n (before_mutation els opts))"
proof -
  let ?P = "\<lambda>c. \<not> (unchecked_checkable c \<and> name_of c = n)"
  let ?Q = "\<lambda>c. \<not> skipped_type c \<and> name_of c = n"
  let ?d0 = "apply_seed (prepend opts) []"
  let ?xs = "filter ?Q (querySelectorAll els)"
  have keep: "?P c"
    using assms(3) unchecked_checkable_null [of c] by (auto simp: is_nullish_def)
  have cx: "c \<in> set ?xs"
    using assms(1,2) by (simp add: walked_def)
  have sel: "filter ?Q (querySelectorAll (filter ?P els)) = filter ?P ?xs"
    unfolding querySelectorAll_def by (induction els) auto
  have removed: "\<forall>x \<in> set ?xs. \<not> ?P x \<longrightarrow> is_nullish (getChildValue x)"
    using unchecked_checkable_null by (auto simp: is_nullish_def)
  have "alike (map_get n ?d0) (map_get n ?d0)" by (simp add: alike_def)
  then have rel: "alike (foldl merge_entry (map_get n ?d0) (map getChildValue ?xs))
                    (foldl merge_entry (map_get n ?d0) (map getChildValue (filter ?P ?xs)))"
    using removed by (rule alike_foldl)
  have "\<exists>v \<in> set (map getChildValue (filter ?P ?xs)). \<not> is_nullish v"
    using cx keep assms(3) by auto
  then have nonnull: "\<not> is_nullish
      (foldl merge_entry (map_get n ?d0) (map getChildValue (filter ?P ?xs)))"
    by (rule foldl_merge_entry_takes_value)
  have entry: "map_get n (walk ?d0 (querySelectorAll els)) =
               foldl merge_entry (map_get n ?d0) (map getChildValue ?xs)"
    by (rule map_get_walk)
  also have "\<dots> = foldl merge_entry (map_get n ?d0) (map getChildValue (filter ?P ?xs))"
    by (rule alike_value [OF rel nonnull])
  also have "\<dots> = map_get n (walk ?d0 (querySelectorAll (filter ?P els)))"
    by (simp only: map_get_walk sel)
  finally have same: "map_get n (walk ?d0 (querySelectorAll els)) =
              map_get n (walk ?d0 (querySelectorAll (filter ?P els)))" .
  show "map_get n (before_mutation els opts) = map_get n (before_mutation (filter ?P els) opts)"
    unfolding before_mutation_def using same by (rule map_get_apply_seed_cong)
  have eq: "foldl merge_entry (map_get n ?d0) (map getChildValue ?xs) =
            foldl merge_entry (map_get n ?d0) (map getChildValue (filter ?P ?xs))"
    by (rule alike_value [OF rel nonnull])
  have "\<not> is_nullish (map_get n (walk ?d0 (querySelectorAll els)))"
    unfolding entry eq by (rule nonnull)
  then show "\<not> is_nullish (map_get n (before_mutation els opts))"
    if "n \<notin> seed_keys (append opts)"
    using that by (simp add: before_mutation_def map_get_apply_seed_absent)
qed

section \<open>Input validation\<close>

text \<open>
  Claim C8. An argument that is not an \<^verbatim>\<open>HTMLFormElement\<close> (\<^verbatim>\<open>null\<close>, \<^verbatim>\<open>undefined\<close> or any
  other value) makes \<^verbatim>\<open>formToMap\<close> fail with the invalid-argument error, whatever the
  options are, and the failure carries no mapping; for a form the error is not raised.
  The error is the whole result: the walk is not part of what is evaluated on that branch.
\<close>

theorem formToMap_invalid_argument:
  "(formToMap formElement opts = Inl InvalidArgument) =
     (\<forall>els. formElement \<noteq> HTMLFormElement els)"
  by (cases formElement) (auto simp: formToMap_def Let_def split: option.splits)

theorem formToMap_invalid_argument_witness:
  "formToMap ArgNull default_options = Inl InvalidArgument \<and>
   formToMap ArgUndefined default_options = Inl InvalidArgument \<and>
   formToMap ArgNotAForm default_options = Inl InvalidArgument \<and>
   formToMap (HTMLFormElement [text_input ''a'' ''1'']) default_options \<noteq> Inl InvalidArgument"
  using formToMap_invalid_argument [of ArgNull default_options]
    formToMap_invalid_argument [of ArgUndefined default_options]
    formToMap_invalid_argument [of ArgNotAForm default_options]
    formToMap_invalid_argument [of "HTMLFormElement [text_input ''a'' ''1'']" default_options]
  by simp

section \<open>The walked controls\<close>

text \<open>
  Claim C3, as amended. A descendant of the form takes part in the walk, contributing the
  pair of its name and its value, exactly when it is an input, a select or a text area,
  has a \<^verbatim>\<open>name\<close> attribute (which may be empty), is enabled, and its type in lower case
  is none of submit, button, reset and file; the pairs are merged in document order. The
  claim asks for a non-empty name: a control whose \<^verbatim>\<open>name\<close> attribute is the empty string
  is walked and stored under the empty key.
\<close>

theorem walk_takes_selected_controls:
  "walked els =
     filter (\<lambda>c. tagName c \<in> {Input, Select, Textarea} \<and> nameAttr c \<noteq> None \<and> enabled c \<and>
                 toLowerCase (typeProp c) \<notin> {''submit'', ''button'', ''reset'', ''file''}) els \<and>
   before_mutation els opts =
     apply_seed (append opts)
       (foldl (\<lambda>data c. merge_pair data (name_of c) (getChildValue c))
          (apply_seed (prepend opts) []) (walked els))"
proof -
  have fold: "walk d cs =
      foldl (\<lambda>data c. merge_pair data (name_of c) (getChildValue c)) d
        (filter (\<lambda>c. \<not> skipped_type c) cs)" for d cs
    by (induction cs arbitrary: d) (simp_all add: walk_step_def)
  have sel: "walked els =
     filter (\<lambda>c. tagName c \<in> {Input, Select, Textarea} \<and> nameAttr c \<noteq> None \<and> enabled c \<and>
                 toLowerCase (typeProp c) \<notin> {''submit'', ''button'', ''reset'', ''file''}) els"
    unfolding walked_def querySelectorAll_def filter_filter
    by (rule filter_cong) (auto simp: selector_matches_def skipped_type_def)
  show ?thesis
    using sel by (simp add: before_mutation_def fold walked_def)
qed

theorem walk_takes_selected_controls_witness:
  "walked [text_input ''a'' ''1'',
           text_input ''s'' ''go''\<lparr>typeProp := ''SUBMIT''\<rparr>,
           text_input ''f'' ''''\<lparr>typeProp := ''file''\<rparr>,
           text_input ''d'' ''2''\<lparr>enabled := False\<rparr>,
           text_input ''n'' ''3''\<lparr>nameAttr := None\<rparr>,
           text_input ''k'' ''4''\<lparr>tagName := OtherTag\<rparr>,
           text_input ''b'' ''5'']
     = [text_input ''a'' ''1'', text_input ''b'' ''5''] \<and>
   before_mutation
          [text_input ''a'' ''1'',
           text_input ''s'' ''go''\<lparr>typeProp := ''SUBMIT''\<rparr>,
           text_input ''f'' ''''\<lparr>typeProp := ''file''\<rparr>,
           text_input ''d'' ''2''\<lparr>enabled := False\<rparr>,
           text_input ''n'' ''3''\<lparr>nameAttr := None\<rparr>,
           text_input ''k'' ''4''\<lparr>tagName := OtherTag\<rparr>,
           text_input ''b'' ''5''] default_options
     = [Some (''a'', Json (JString ''1'')), Some (''b'', Json (JString ''5''))]"
proof -
  let ?F = "[text_input ''a'' ''1'',
           text_input ''s'' ''go''\<lparr>typeProp := ''SUBMIT''\<rparr>,
           text_input ''f'' ''''\<lparr>typeProp := ''file''\<rparr>,
           text_input ''d'' ''2''\<lparr>enabled := False\<rparr>,
           text_input ''n'' ''3''\<lparr>nameAttr := None\<rparr>,
           text_input ''k'' ''4''\<lparr>tagName := OtherTag\<rparr>,
           text_input ''b'' ''5'']"
  have selected:
    "filter (\<lambda>c. tagName c \<in> {Input, Select, Textarea} \<and> nameAttr c \<noteq> None \<and> enabled c \<and>
                 toLowerCase (typeProp c) \<notin> {''submit'', ''button'', ''reset'', ''file''}) ?F
       = [text_input ''a'' ''1'', text_input ''b'' ''5'']"
    by code_simp
  have merged:
    "apply_seed (append default_options)
       (foldl (\<lambda>data c. merge_pair data (name_of c) (getChildValue c))
          (apply_seed (prepend default_options) [])
          [text_input ''a'' ''1'', text_input ''b'' ''5''])
       = [Some (''a'', Json (JString ''1'')), Some (''b'', Json (JString ''5''))]"
    by code_simp
  show ?thesis
    using walk_takes_selected_controls [of ?F default_options] selected merged by simp
qed

theorem empty_name_counterexample:
  "name_of (text_input [] ''x'') = [] \<and>
   walked [text_input [] ''x''] = [text_input [] ''x''] \<and>
   formToMap (HTMLFormElement [text_input [] ''x'']) default_options =
     Inr [Some ([], Json (JString ''x''))]"
  by code_simp

section \<open>Value extraction\<close>

text \<open>
  Claim C4. When a control has a callable \<^verbatim>\<open>getValue\<close>, the extracted value is what the
  call returns, whatever the tag, the type, the checked state or the native value of the
  control are; a form whose only walked control is such a control maps its name to that
  result.
\<close>

theorem getValue_takes_precedence:
  assumes "getValue child = Some r"
  shows "getChildValue child = r \<and>
         (selector_matches child \<and> \<not> skipped_type child \<longrightarrow>
            formToMap (HTMLFormElement [child]) default_options = Inr [Some (name_of child, r)])"
  using assms
  by (simp add: getChildValue_def formToMap_def before_mutation_def default_options_def
      apply_seed_def querySelectorAll_def walk_step_def merge_pair_def is_nullish_def)

theorem getValue_takes_precedence_witness:
  "getValue (checkbox ''opt'' ''on'' False
      \<lparr>getValue := Some (Json (JObject [(''n'', JNumber 1)]))\<rparr>)
     = Some (Json (JObject [(''n'', JNumber 1)])) \<and>
   getChildValue (checkbox ''opt'' ''on'' False) = Json JNull \<and>
   getChildValue (checkbox ''opt'' ''on'' False
      \<lparr>getValue := Some (Json (JObject [(''n'', JNumber 1)]))\<rparr>)
     = Json (JObject [(''n'', JNumber 1)]) \<and>
   formToMap (HTMLFormElement [checkbox ''opt'' ''on'' False
      \<lparr>getValue := Some (Json (JObject [(''n'', JNumber 1)]))\<rparr>]) default_options
     = Inr [Some (''opt'', Json (JObject [(''n'', JNumber 1)]))]"
proof -
  let ?c = "checkbox ''opt'' ''on'' False
      \<lparr>getValue := Some (Json (JObject [(''n'', JNumber 1)]))\<rparr>"
  have h: "getValue ?c = Some (Json (JObject [(''n'', JNumber 1)]))" by simp
  have plain: "getChildValue (checkbox ''opt'' ''on'' False) = Json JNull" by code_simp
  have sel: "selector_matches ?c" by code_simp
  have walked: "\<not> skipped_type ?c" by code_simp
  have n: "name_of ?c = ''opt''" by code_simp
  show ?thesis
    using h plain sel walked getValue_takes_precedence [OF h] by (simp add: n)
qed

text \<open>
  Claim C5. A checkbox or radio input without a \<^verbatim>\<open>getValue\<close> yields its value string when
  it is checked and \<^verbatim>\<open>null\<close> when it is not. When such a control is unchecked and walked,
  no other walked control has its name, no seed holds its name and no mutator is given,
  the entry of its name in the result is \<^verbatim>\<open>null\<close>.
\<close>

theorem unchecked_checkable_value:
  assumes "tagName child = Input"
    and "toLowerCase (typeProp child) \<in> {''checkbox'', ''radio''}"
    and "getValue child = None"
  shows "getChildValue child =
           (if checked child then Json (JString (valueProp child)) else Json JNull) \<and>
         (\<not> checked child \<and> child \<in> set (walked els) \<and>
          (\<forall>c \<in> set (walked els). name_of c = name_of child \<longrightarrow> c = child) \<and>
          name_of child \<notin> seed_keys (prepend opts) \<and>
          name_of child \<notin> seed_keys (append opts) \<and> mutator opts = None \<longrightarrow>
            formToMap (HTMLFormElement els) opts = Inr (before_mutation els opts) \<and>
            map_get (name_of child) (before_mutation els opts) = Json JNull)"
proof -
  have checkable: "isInputCheckable child"
    using assms by (simp add: isInputCheckable_def)
  have extracted: "getChildValue child =
           (if checked child then Json (JString (valueProp child)) else Json JNull)"
    using assms checkable by (simp add: getChildValue_def)
  have alone: "map_get (name_of child) (before_mutation els opts) = Json JNull"
    if off: "\<not> checked child" and inside: "child \<in> set (walked els)"
      and only: "\<forall>c \<in> set (walked els). name_of c = name_of child \<longrightarrow> c = child"
      and seeds: "name_of child \<notin> seed_keys (prepend opts)"
        "name_of child \<notin> seed_keys (append opts)"
  proof -
    let ?vs = "map getChildValue (filter (\<lambda>c. name_of c = name_of child) (walked els))"
    have "?vs \<noteq> []" using inside by (auto simp: filter_empty_conv)
    moreover have "\<forall>v \<in> set ?vs. v = Json JNull"
      using only extracted off by auto
    ultimately have "foldl merge_entry Undefined ?vs = Json JNull"
      by (intro foldl_merge_entry_nulls) (simp_all add: is_nullish_def)
    then show ?thesis using seeds by (simp add: entry_before_mutation)
  qed
  show ?thesis
    using extracted alone by (auto simp: formToMap_without_mutator)
qed

theorem unchecked_checkable_value_witness:
  "getChildValue (checkbox ''flag'' ''on'' True) = Json (JString ''on'') \<and>
   getChildValue (checkbox ''flag'' ''on'' False) = Json JNull \<and>
   formToMap (HTMLFormElement [text_input ''a'' ''1'', checkbox ''flag'' ''on'' False])
       default_options =
     Inr (before_mutation [text_input ''a'' ''1'', checkbox ''flag'' ''on'' False]
            default_options) \<and>
   map_get ''flag''
     (before_mutation [text_input ''a'' ''1'', checkbox ''flag'' ''on'' False] default_options)
     = Json JNull"
proof -
  let ?on = "checkbox ''flag'' ''on'' True"
  let ?off = "checkbox ''flag'' ''on'' False"
  let ?F = "[text_input ''a'' ''1'', ?off]"
  have is_input: "tagName (checkbox n v c) = Input" for n v c by (simp add: checkbox_def)
  have is_checkbox: "toLowerCase (typeProp (checkbox n v c)) \<in> {''checkbox'', ''radio''}" for n v c
    by (simp add: checkbox_def toLowerCase_def lower_char_def)
  have no_custom: "getValue (checkbox n v c) = None" for n v c by (simp add: checkbox_def)
  have fields: "checked ?on" "\<not> checked ?off" "valueProp ?on = ''on''" "name_of ?off = ''flag''"
    "name_of (text_input ''a'' ''1'') = ''a''"
    by (simp_all add: checkbox_def text_input_def name_of_def)
  have all_walked: "walked ?F = ?F" by code_simp
  have seeds: "seed_keys (prepend default_options) = {}" "seed_keys (append default_options) = {}"
    "mutator default_options = None"
    by (simp_all add: default_options_def seed_keys_def)
  show ?thesis
    using unchecked_checkable_value [OF is_input is_checkbox no_custom,
        of "''flag''" "''on''" True ?F default_options]
      unchecked_checkable_value [OF is_input is_checkbox no_custom,
        of "''flag''" "''on''" False ?F default_options]
    by (simp add: fields all_walked seeds)
qed

section \<open>An entry that holds null\<close>

text \<open>
  Claim C9. When the entry of the name of a walked control holds \<^verbatim>\<open>null\<close>, the loop
  stores the value of the control in its place, whatever that value is (a scalar, a list,
  \<^verbatim>\<open>null\<close>): the \<^verbatim>\<open>null\<close> is dropped and no array is built from it. The entry keeps
  its position among the keys.
\<close>

theorem null_entry_is_replaced:
  assumes "\<not> skipped_type child" and "map_get (name_of child) data = Json JNull"
  shows "walk_step data child = map_set (name_of child) (getChildValue child) data \<and>
         map_get (name_of child) (walk_step data child) = getChildValue child \<and>
         map_keys (walk_step data child) = map_keys data"
proof -
  have step: "walk_step data child = map_set (name_of child) (getChildValue child) data"
    using assms by (simp add: walk_step_def merge_pair_def is_nullish_def)
  have "name_of child \<in> set (map_keys data)"
    using assms(2) map_get_present [of "name_of child" data] by simp
  then show ?thesis using step by (simp add: map_get_map_set map_keys_map_set)
qed

theorem null_entry_is_replaced_witness:
  "\<not> skipped_type (select_multiple ''flag'' [''a'', ''b'']) \<and>
   map_get (name_of (select_multiple ''flag'' [''a'', ''b'']))
     [Some (''flag'', Json JNull), Some (''z'', Json (JString ''1''))] = Json JNull \<and>
   walk_step [Some (''flag'', Json JNull), Some (''z'', Json (JString ''1''))]
       (select_multiple ''flag'' [''a'', ''b''])
     = [Some (''flag'', Json (JArray [JString ''a'', JString ''b''])),
        Some (''z'', Json (JString ''1''))]"
proof -
  let ?c = "select_multiple ''flag'' [''a'', ''b'']"
  let ?d = "[Some (''flag'', Json JNull), Some (''z'', Json (JString ''1''))]"
  have h1: "\<not> skipped_type ?c" by code_simp
  have h2: "map_get (name_of ?c) ?d = Json JNull" by code_simp
  have n: "name_of ?c = ''flag''" by code_simp
  have v: "getChildValue ?c = Json (JArray [JString ''a'', JString ''b''])" by code_simp
  show ?thesis using h1 h2 null_entry_is_replaced [OF h1 h2] by (simp add: n v)
qed

section \<open>Controls that share a name\<close>

text \<open>
  Claim C1. Let the walked controls of a form that carry the name \<open>n\<close> yield the values
  \<open>js\<close>, in document order, each of them a scalar (neither \<^verbatim>\<open>null\<close> nor an array), and let
  no seed hold the key \<open>n\<close> and no mutator be given. Then the entry of \<open>n\<close> is the value
  itself when there is one such control, and the array of the values in document order
  when there are two or more: the first occurrence stores a scalar, the second turns it
  into an array, and each further one extends the array at its end.
\<close>

theorem same_name_scalars_accumulate:
  assumes "map getChildValue (filter (\<lambda>c. name_of c = n) (walked els)) = map Json js"
    and "\<forall>j \<in> set js. is_scalar j"
    and "n \<notin> seed_keys (prepend opts)" and "n \<notin> seed_keys (append opts)"
    and "mutator opts = None"
  shows "formToMap (HTMLFormElement els) opts = Inr (before_mutation els opts) \<and>
         map_get n (before_mutation els opts) =
           (case js of [] \<Rightarrow> Undefined | [j] \<Rightarrow> Json j | _ \<Rightarrow> Json (JArray js))"
proof -
  have "foldl merge_entry Undefined (map Json js) =
          (case js of [] \<Rightarrow> Undefined | [j] \<Rightarrow> Json j | _ \<Rightarrow> Json (JArray js))"
    using assms(2) by (intro foldl_merge_entry_scalars) (simp_all add: is_nullish_def)
  then show ?thesis
    using assms by (simp add: entry_before_mutation formToMap_without_mutator)
qed

theorem same_name_scalars_accumulate_witness:
  "formToMap (HTMLFormElement
       [text_input ''a'' ''1'', text_input ''tags'' ''t1'', text_input ''tags'' ''t2'',
        checkbox ''flag'' ''on'' False]) default_options =
     Inr [Some (''a'', Json (JString ''1'')),
          Some (''tags'', Json (JArray [JString ''t1'', JString ''t2''])),
          Some (''flag'', Json JNull)] \<and>
   map_get ''tags'' (before_mutation
       [text_input ''a'' ''1'', text_input ''tags'' ''t1'', text_input ''tags'' ''t2'',
        checkbox ''flag'' ''on'' False] default_options) =
     Json (JArray [JString ''t1'', JString ''t2'']) \<and>
   map_get ''a'' (before_mutation
       [text_input ''a'' ''1'', text_input ''tags'' ''t1'', text_input ''tags'' ''t2'',
        checkbox ''flag'' ''on'' False] default_options) = Json (JString ''1'')"
proof -
  let ?F = "[text_input ''a'' ''1'', text_input ''tags'' ''t1'', text_input ''tags'' ''t2'',
        checkbox ''flag'' ''on'' False]"
  have tags: "map getChildValue (filter (\<lambda>c. name_of c = ''tags'') (walked ?F)) =
      map Json [JString ''t1'', JString ''t2'']"
    by code_simp
  have a: "map getChildValue (filter (\<lambda>c. name_of c = ''a'') (walked ?F)) =
      map Json [JString ''1'']"
    by code_simp
  have scalars: "\<forall>j \<in> set [JString ''t1'', JString ''t2'']. is_scalar j"
    "\<forall>j \<in> set [JString ''1'']. is_scalar j"
    by (simp_all add: is_scalar_def)
  have seeds: "''tags'' \<notin> seed_keys (prepend default_options)"
    "''tags'' \<notin> seed_keys (append default_options)"
    "''a'' \<notin> seed_keys (prepend default_options)"
    "''a'' \<notin> seed_keys (append default_options)"
    "mutator default_options = None"
    by (simp_all add: default_options_def seed_keys_def)
  have whole: "before_mutation ?F default_options =
      [Some (''a'', Json (JString ''1'')),
       Some (''tags'', Json (JArray [JString ''t1'', JString ''t2''])),
       Some (''flag'', Json JNull)]"
    by code_simp
  show ?thesis
    using same_name_scalars_accumulate [OF tags scalars(1) seeds(1,2,5)]
      same_name_scalars_accumulate [OF a scalars(2) seeds(3,4,5)]
    by (simp add: whole)
qed

text \<open>
  Claim C2. A checkbox or radio button that is not checked leaves the map as it is when
  its name has an entry that is neither \<^verbatim>\<open>null\<close> nor \<^verbatim>\<open>undefined\<close>. Wherever the unchecked
  controls of a name stand in the document, before or after a sibling with a value, the
  entry of that name in the result is the one the form without them produces, and before
  the mutator runs it is not \<^verbatim>\<open>null\<close> unless the append seed overwrites it.
\<close>

theorem unchecked_checkable_contributes_nothing:
  "(unchecked_checkable child \<and> \<not> is_nullish (map_get (name_of child) data) \<longrightarrow>
      walk_step data child = data) \<and>
   ((\<exists>c \<in> set (walked els). name_of c = n \<and> \<not> is_nullish (getChildValue c)) \<longrightarrow>
      (\<exists>a b. formToMap (HTMLFormElement els) opts = Inr a \<and>
             formToMap (HTMLFormElement
               (filter (\<lambda>c. \<not> (unchecked_checkable c \<and> name_of c = n)) els)) opts = Inr b \<and>
             map_get n a = map_get n b) \<and>
      (n \<notin> seed_keys (append opts) \<longrightarrow>
         \<not> is_nullish (map_get n (before_mutation els opts))))"
proof -
  let ?els' = "filter (\<lambda>c. \<not> (unchecked_checkable c \<and> name_of c = n)) els"
  have step: "walk_step data child = data"
    if "unchecked_checkable child" and "\<not> is_nullish (map_get (name_of child) data)"
    using that unchecked_checkable_null [of child]
    by (simp add: walk_step_def merge_pair_def is_nullish_def)
  have whole: "\<exists>a b. formToMap (HTMLFormElement els) opts = Inr a \<and>
             formToMap (HTMLFormElement ?els') opts = Inr b \<and> map_get n a = map_get n b"
    and kept: "n \<notin> seed_keys (append opts) \<longrightarrow>
         \<not> is_nullish (map_get n (before_mutation els opts))"
    if c: "c \<in> set (walked els)" "name_of c = n" "\<not> is_nullish (getChildValue c)" for c
  proof -
    have same: "map_get n (before_mutation els opts) = map_get n (before_mutation ?els' opts)"
      using c by (rule entry_without_unchecked(1))
    have "\<not> (unchecked_checkable c \<and> name_of c = n)"
      using c(3) unchecked_checkable_null [of c] by (auto simp: is_nullish_def)
    then have "c \<in> set (walked ?els')"
      using c(1) by (simp add: walked_filter)
    then have keys: "n \<in> set (map_keys (before_mutation els opts))"
      "n \<in> set (map_keys (before_mutation ?els' opts))"
      using c(1,2) by (auto simp: set_map_keys_before_mutation)
    show "\<exists>a b. formToMap (HTMLFormElement els) opts = Inr a \<and>
             formToMap (HTMLFormElement ?els') opts = Inr b \<and> map_get n a = map_get n b"
    proof (cases "mutator opts")
      case None
      then show ?thesis using same by (simp add: formToMap_without_mutator)
    next
      case (Some mut)
      then show ?thesis
        using same keys
        by (simp add: formToMap_with_mutator map_get_mutated distinct_before_mutation)
    qed
    show "n \<notin> seed_keys (append opts) \<longrightarrow>
         \<not> is_nullish (map_get n (before_mutation els opts))"
      using entry_without_unchecked(2) [OF c] by simp
  qed
  show ?thesis using step whole kept by blast
qed

theorem unchecked_checkable_contributes_nothing_witness:
  "walk_step [Some (''c'', Json (JString ''y''))] (checkbox ''c'' ''z'' False) =
     [Some (''c'', Json (JString ''y''))] \<and>
   (\<exists>a b. formToMap (HTMLFormElement
              [checkbox ''c'' ''x'' False, text_input ''a'' ''1'', checkbox ''c'' ''y'' True,
               checkbox ''c'' ''z'' False]) default_options = Inr a \<and>
          formToMap (HTMLFormElement [text_input ''a'' ''1'', checkbox ''c'' ''y'' True])
            default_options = Inr b \<and>
          map_get ''c'' a = map_get ''c'' b) \<and>
   map_get ''c'' (before_mutation
              [checkbox ''c'' ''x'' False, text_input ''a'' ''1'', checkbox ''c'' ''y'' True,
               checkbox ''c'' ''z'' False] default_options) = Json (JString ''y'')"
proof -
  let ?on = "checkbox ''c'' ''y'' True"
  let ?off = "checkbox ''c'' ''z'' False"
  let ?d = "[Some (''c'', Json (JString ''y''))]"
  let ?F = "[checkbox ''c'' ''x'' False, text_input ''a'' ''1'', ?on, ?off]"
  have off: "unchecked_checkable ?off" by code_simp
  have entry: "\<not> is_nullish (map_get (name_of ?off) ?d)" by code_simp
  have "?on \<in> set (walked ?F)" by code_simp
  moreover have "name_of ?on = ''c'' \<and> \<not> is_nullish (getChildValue ?on)" by code_simp
  ultimately have sibling:
    "\<exists>c \<in> set (walked ?F). name_of c = ''c'' \<and> \<not> is_nullish (getChildValue c)"
    by blast
  have without:
    "filter (\<lambda>c. \<not> (unchecked_checkable c \<and> name_of c = ''c'')) ?F = [text_input ''a'' ''1'', ?on]"
    by code_simp
  have result: "map_get ''c'' (before_mutation ?F default_options) = Json (JString ''y'')"
    by code_simp
  note inst =
    unchecked_checkable_contributes_nothing [of ?off ?d ?F "''c''" default_options,
      unfolded without]
  have step: "walk_step ?d ?off = ?d"
    using inst off entry by blast
  have both: "\<exists>a b. formToMap (HTMLFormElement ?F) default_options = Inr a \<and>
          formToMap (HTMLFormElement [text_input ''a'' ''1'', ?on]) default_options = Inr b \<and>
          map_get ''c'' a = map_get ''c'' b"
    using inst sibling by blast
  show ?thesis
    using step both result by blast
qed

section \<open>Keys and values of the result\<close>

text \<open>
  Claim C6. When no \<^verbatim>\<open>getValue\<close> of the form returns \<^verbatim>\<open>undefined\<close>, every key of the
  result is a key of the prepend seed, the name of a walked control or a key of the append
  seed, and no entry of the result holds \<^verbatim>\<open>undefined\<close>, with or without a mutator.
\<close>

theorem result_keys_and_values:
  assumes "\<forall>c \<in> set els. getValue c \<noteq> Some Undefined"
  shows "\<exists>data. formToMap (HTMLFormElement els) opts = Inr data \<and>
           set (map_keys data) \<subseteq>
             seed_keys (prepend opts) \<union> name_of ` set (walked els) \<union> seed_keys (append opts) \<and>
           Undefined \<notin> snd ` set (map_entries data)"
proof (cases "mutator opts")
  case None
  have "defined_values (before_mutation els opts)"
    using assms by (rule defined_values_before_mutation)
  then show ?thesis
    using formToMap_without_mutator [OF None, of els]
    by (simp add: set_map_keys_before_mutation defined_values_def)
next
  case (Some mut)
  let ?data = "map (mutated_slot mut) (before_mutation els opts)"
  have "set (map_keys ?data) \<subseteq> set (map_keys (before_mutation els opts))"
    using keys_map_filter_mutated [of mut "map_entries (before_mutation els opts)"]
    by (simp add: map_keys_def map_entries_mutated)
  moreover have "Undefined \<notin> snd ` set (map_entries ?data)"
    using values_map_filter_mutated [of mut "map_entries (before_mutation els opts)"]
    by (simp add: map_entries_mutated)
  ultimately show ?thesis
    using formToMap_with_mutator [OF Some, of els]
    by (simp add: set_map_keys_before_mutation)
qed

theorem result_keys_and_values_witness:
  "\<exists>data. formToMap (HTMLFormElement [text_input ''a'' ''x''])
       \<lparr>mutator = None, append = Some (SeedObject [(''done'', JBoolean True)]),
        prepend = Some (SeedMap [(''src'', JString ''form'')])\<rparr> = Inr data \<and>
     map_keys data = [''src'', ''a'', ''done''] \<and>
     set (map_keys data) \<subseteq> {''src'', ''a'', ''done''} \<and>
     Undefined \<notin> snd ` set (map_entries data)"
proof -
  let ?F = "[text_input ''a'' ''x'']"
  let ?O = "\<lparr>mutator = None, append = Some (SeedObject [(''done'', JBoolean True)]),
        prepend = Some (SeedMap [(''src'', JString ''form'')])\<rparr>"
  have h: "\<forall>c \<in> set ?F. getValue c \<noteq> Some Undefined" by (simp add: text_input_def)
  have result: "formToMap (HTMLFormElement ?F) ?O =
      Inr [Some (''src'', Json (JString ''form'')), Some (''a'', Json (JString ''x'')),
           Some (''done'', Json (JBoolean True))]"
    by code_simp
  have keys: "seed_keys (prepend ?O) \<union> name_of ` set (walked ?F) \<union> seed_keys (append ?O) =
      {''src'', ''a'', ''done''}"
    by code_simp
  show ?thesis
    using result_keys_and_values [OF h, of ?O] by (simp add: result keys map_keys_def)
qed

section \<open>The mutator\<close>

text \<open>
  Claim C7, as amended. For every form and all options: when no \<^verbatim>\<open>getValue\<close> of the form
  returns \<^verbatim>\<open>undefined\<close>, the identity mutator leaves the map as it stood after the append
  step; a mutator that always returns \<^verbatim>\<open>undefined\<close> leaves no entry, whatever the controls
  return; and for every mutator the calls made during the pass are the entries of the map
  as it stood before the pass, each once and in order, whatever the pass deletes or
  replaces on its way, their keys being distinct. The condition bears on the identity law
  alone, which fails without it: an entry that holds \<^verbatim>\<open>undefined\<close> is deleted by the
  identity mutator.
\<close>

theorem mutator_laws:
  "((\<forall>c \<in> set els. getValue c \<noteq> Some Undefined) \<and> mutator opts = Some (\<lambda>key v. v) \<longrightarrow>
      formToMap (HTMLFormElement els) opts = Inr (before_mutation els opts)) \<and>
   (mutator opts = Some (\<lambda>key v. Undefined) \<longrightarrow>
      (\<exists>data. formToMap (HTMLFormElement els) opts = Inr data \<and> map_entries data = [])) \<and>
   (\<forall>mut. snd (forEach_mutate mut 0 (before_mutation els opts, [])) =
            map_entries (before_mutation els opts)) \<and>
   distinct (map_keys (before_mutation els opts))"
proof -
  have identity:
    "map (mutated_slot (\<lambda>key v. v)) (before_mutation els opts) = before_mutation els opts"
    if "\<forall>c \<in> set els. getValue c \<noteq> Some Undefined"
  proof -
    have "defined_values (before_mutation els opts)"
      using that by (rule defined_values_before_mutation)
    then show ?thesis by (rule mutated_slot_identity)
  qed
  have unchanged: "formToMap (HTMLFormElement els) opts = Inr (before_mutation els opts)"
    if "\<forall>c \<in> set els. getValue c \<noteq> Some Undefined"
      and "mutator opts = Some (\<lambda>key v. v)"
    using that(2) identity [OF that(1)] by (simp add: formToMap_with_mutator)
  have emptied: "\<exists>data. formToMap (HTMLFormElement els) opts = Inr data \<and> map_entries data = []"
    if "mutator opts = Some (\<lambda>key v. Undefined)"
    using that by (simp add: formToMap_with_mutator mutated_slot_delete)
  have visits: "\<forall>mut. snd (forEach_mutate mut 0 (before_mutation els opts, [])) =
                  map_entries (before_mutation els opts)"
    by (simp add: forEach_mutate_all distinct_before_mutation)
  show ?thesis
    using unchanged emptied visits distinct_before_mutation [of els opts] by blast
qed

theorem mutator_laws_witness:
  "formToMap (HTMLFormElement [text_input ''a'' ''1'', checkbox ''b'' ''on'' False])
       (only_mutator (\<lambda>key v. v)) =
     Inr [Some (''a'', Json (JString ''1'')), Some (''b'', Json JNull)] \<and>
   (\<exists>data. formToMap (HTMLFormElement [text_input ''a'' ''1'', checkbox ''b'' ''on'' False])
       (only_mutator (\<lambda>key v. Undefined)) = Inr data \<and> map_entries data = []) \<and>
   snd (forEach_mutate example_mutator 0
          (before_mutation [text_input ''a'' ''1'', checkbox ''b'' ''on'' False]
             (only_mutator example_mutator), [])) =
     [(''a'', Json (JString ''1'')), (''b'', Json JNull)] \<and>
   (\<exists>data. formToMap (HTMLFormElement [text_input ''x'' ''1''\<lparr>getValue := Some Undefined\<rparr>])
       (only_mutator (\<lambda>key v. Undefined)) = Inr data \<and> map_entries data = []) \<and>
   snd (forEach_mutate (\<lambda>key v. v) 0
          (before_mutation [text_input ''x'' ''1''\<lparr>getValue := Some Undefined\<rparr>]
             (only_mutator (\<lambda>key v. v)), [])) = [(''x'', Undefined)]"
proof -
  let ?F = "[text_input ''a'' ''1'', checkbox ''b'' ''on'' False]"
  let ?U = "[text_input ''x'' ''1''\<lparr>getValue := Some Undefined\<rparr>]"
  have h: "\<forall>c \<in> set ?F. getValue c \<noteq> Some Undefined"
    by (simp add: text_input_def checkbox_def)
  have before: "before_mutation ?F opts =
      [Some (''a'', Json (JString ''1'')), Some (''b'', Json JNull)]"
    if "append opts = None" and "prepend opts = None" for opts
    using that
    by (simp add: before_mutation_def apply_seed_def)
       code_simp
  have b1: "before_mutation ?F (only_mutator (\<lambda>key v. v)) =
      [Some (''a'', Json (JString ''1'')), Some (''b'', Json JNull)]"
    by (rule before) (simp_all add: only_mutator_def)
  have b2: "before_mutation ?F (only_mutator example_mutator) =
      [Some (''a'', Json (JString ''1'')), Some (''b'', Json JNull)]"
    by (rule before) (simp_all add: only_mutator_def)
  have b3: "before_mutation ?U (only_mutator (\<lambda>key v. v)) = [Some (''x'', Undefined)]"
    by code_simp
  have m: "mutator (only_mutator mut) = Some mut" for mut
    by (simp add: only_mutator_def)
  show ?thesis
    using mutator_laws [of ?F "only_mutator (\<lambda>key v. v)"] h
      mutator_laws [of ?F "only_mutator (\<lambda>key v. Undefined)"]
      mutator_laws [of ?F "only_mutator example_mutator"]
      mutator_laws [of ?U "only_mutator (\<lambda>key v. Undefined)"]
      mutator_laws [of ?U "only_mutator (\<lambda>key v. v)"]
    by (simp add: b1 b2 b3 m)
qed

theorem identity_mutator_counterexample:
  "map_entries (before_mutation [text_input ''x'' ''1''\<lparr>getValue := Some Undefined\<rparr>]
      (only_mutator (\<lambda>key v. v))) = [(''x'', Undefined)] \<and>
   formToMap (HTMLFormElement [text_input ''x'' ''1''\<lparr>getValue := Some Undefined\<rparr>])
      (only_mutator (\<lambda>key v. v)) = Inr [None] \<and>
   map_entries [None] = [] \<and>
   formToMap (HTMLFormElement [text_input ''x'' ''1''\<lparr>getValue := Some Undefined\<rparr>])
      (only_mutator (\<lambda>key v. v))
     \<noteq> Inr (before_mutation [text_input ''x'' ''1''\<lparr>getValue := Some Undefined\<rparr>]
            (only_mutator (\<lambda>key v. v)))"
proof -
  let ?F = "[text_input ''x'' ''1''\<lparr>getValue := Some Undefined\<rparr>]"
  let ?O = "only_mutator (\<lambda>key v. v)"
  have before: "before_mutation ?F ?O = [Some (''x'', Undefined)]" by code_simp
  have after: "formToMap (HTMLFormElement ?F) ?O = Inr [None]" by code_simp
  show ?thesis by (simp add: before after)
qed

text \<open>
  Claim C10. With a mutator, the entries of the result are those of the map before the
  pass, in the same order, each treated by what the mutator returns for it: \<^verbatim>\<open>undefined\<close>
  deletes the entry, any other value, \<^verbatim>\<open>null\<close> included, is the value of the entry at the
  place the entry had.
\<close>

theorem mutator_delete_sentinel:
  assumes "mutator opts = Some mut"
  shows "\<exists>data. formToMap (HTMLFormElement els) opts = Inr data \<and>
           map_entries data =
             List.map_filter
               (\<lambda>(key, v). case mut key v of Undefined \<Rightarrow> None | Json nv \<Rightarrow> Some (key, Json nv))
               (map_entries (before_mutation els opts))"
  using formToMap_with_mutator [OF assms, of els]
  by (simp add: map_entries_mutated mutated_entry_unfold)

theorem mutator_delete_sentinel_witness:
  "\<exists>data. formToMap
       (HTMLFormElement [text_input ''a'' ''1'', text_input ''b'' ''2'', text_input ''c'' ''3''])
       (only_mutator example_mutator) = Inr data \<and>
     map_entries data = [(''b'', Json JNull), (''c'', Json (JString ''X''))]"
proof -
  let ?F = "[text_input ''a'' ''1'', text_input ''b'' ''2'', text_input ''c'' ''3'']"
  let ?O = "only_mutator example_mutator"
  have m: "mutator ?O = Some example_mutator" by (simp add: only_mutator_def)
  have before: "map_entries (before_mutation ?F ?O) =
      [(''a'', Json (JString ''1'')), (''b'', Json (JString ''2'')), (''c'', Json (JString ''3''))]"
    by code_simp
  show ?thesis
    using mutator_delete_sentinel [OF m, of ?F]
    by (simp add: before example_mutator_def List.map_filter_simps)
qed

end
